theory Spec2Isabelle
  imports Main "HOL-Library.AList"
begin

section \<open>Collaborator data consumed by the trie builder\<close>

text \<open>
  The builder in \<open>starlite/asgi/routing_trie/mapping.py\<close> reads routes, route handlers, the
  application object and path parameter definitions only through a handful of attributes.
  Each collaborator is a datatype or record holding exactly the attributes that are read.
\<close>

datatype declared_type =
  TStr | TInt | TFloat | TUUID | TDecimal | TDate | TDatetime | TTime | TTimedelta | TPath

text \<open>
  Modelled from the spec: \<open>PathParameterDefinition\<close> (module \<open>starlite.types.internal_types\<close>)
  is a parameter's name together with its declared type; \<open>TPath\<close> is the path-remainder type
  that the source tests with \<open>component.type is Path\<close>.
\<close>

datatype path_parameter_definition =
  PathParameterDefinition (param_name: string) (param_type: declared_type)

text \<open>A path component is a literal string or a parameter definition (the \<open>isinstance\<close> test).\<close>

datatype path_component = Literal string | Parameter path_parameter_definition

text \<open>
  A resolved middleware item is a plain factory, called as \<open>middleware(app=...)\<close>, or an
  iterable pair of a factory and keyword arguments, called as \<open>handler(app=..., **kwargs)\<close>.
\<close>

type_synonym kwargs = "(string \<times> string) list"

datatype middleware = Factory string | DefineMiddleware string kwargs

type_synonym exception_handlers = "(string \<times> string) list"

record route_handler =
  handler_name :: string
  handler_is_mount :: bool
  handler_is_static :: bool
  resolve_middleware :: "middleware list"
  resolve_exception_handlers :: exception_handlers

text \<open>
  The three route kinds. An HTTP route has a \<open>route_handler_map\<close> from method to a pair of
  handler and keyword model and no \<open>route_handler\<close> attribute; the two other kinds have one
  \<open>route_handler\<close>. The map is kept as the list of its items in iteration order.
\<close>

datatype route =
    HTTPRoute (path: string) (path_components: "path_component list")
      (route_path_parameters: "path_parameter_definition list")
      (route_handler_map: "(string \<times> route_handler \<times> nat) list")
  | WebSocketRoute (path: string) (path_components: "path_component list")
      (route_path_parameters: "path_parameter_definition list")
      (route_handler: route_handler)
  | ASGIRoute (path: string) (path_components: "path_component list")
      (route_path_parameters: "path_parameter_definition list")
      (route_handler: route_handler)

datatype csrf_config = CSRFConfig string
datatype compression_config = CompressionConfig string
datatype allowed_hosts_config = AllowedHostsConfig "string list"

text \<open>The application attributes read by the stack builder; a falsy configuration is \<open>None\<close>.\<close>

record starlite =
  debug :: bool
  csrf_config :: "csrf_config option"
  compression_config :: "compression_config option"
  allowed_hosts :: "allowed_hosts_config option"

section \<open>Middleware stacks\<close>

text \<open>
  An ASGI application is an opaque callable. The stack builder only nests constructor calls, so
  a stack is the term of those calls: \<open>Handle route\<close> is the bound method \<open>route.handle\<close> and
  every other constructor wraps the application given as its \<open>app\<close> argument.
\<close>

datatype asgi_app =
    Handle route
  | ExceptionHandlerMiddleware asgi_app exception_handlers bool
  | CSRFMiddleware asgi_app csrf_config
  | CompressionMiddleware asgi_app compression_config
  | AllowedHostsMiddleware asgi_app allowed_hosts_config
  | MiddlewareInstance string kwargs asgi_app

text \<open>
  Modelled from the spec: \<open>wrap_in_exception_handler\<close> (module \<open>starlite.asgi.utils\<close>) builds
  the exception-handling wrapper around \<open>app\<close> from the given exception handlers and debug flag.
\<close>

definition wrap_in_exception_handler ::
    "bool \<Rightarrow> asgi_app \<Rightarrow> exception_handlers \<Rightarrow> asgi_app" where
  "wrap_in_exception_handler dbg app exc_handlers = ExceptionHandlerMiddleware app exc_handlers dbg"

text \<open>The body of the loop over \<open>route_handler.resolve_middleware()\<close>.\<close>

fun apply_middleware :: "middleware \<Rightarrow> asgi_app \<Rightarrow> asgi_app" where
  "apply_middleware (DefineMiddleware handler kw) asgi_handler =
     MiddlewareInstance handler kw asgi_handler"
| "apply_middleware (Factory f) asgi_handler = MiddlewareInstance f [] asgi_handler"

definition build_route_middleware_stack :: "starlite \<Rightarrow> route \<Rightarrow> route_handler \<Rightarrow> asgi_app" where
  "build_route_middleware_stack app route rh =
     (let h0 = wrap_in_exception_handler (debug app) (Handle route) (resolve_exception_handlers rh);
          h1 = (case csrf_config app of None \<Rightarrow> h0 | Some c \<Rightarrow> CSRFMiddleware h0 c);
          h2 = (case compression_config app of None \<Rightarrow> h1 | Some c \<Rightarrow> CompressionMiddleware h1 c);
          h3 = (case allowed_hosts app of None \<Rightarrow> h2 | Some c \<Rightarrow> AllowedHostsMiddleware h2 c);
          h4 = fold apply_middleware (resolve_middleware rh) h3
      in wrap_in_exception_handler (debug app) h4 (resolve_exception_handlers rh))"

subsection \<open>Observing a stack\<close>

datatype layer =
    ExceptionLayer | CSRFLayer | CompressionLayer | AllowedHostsLayer | RouteMiddleware string kwargs

text \<open>The wrappers of a stack, outermost first, down to the terminal handler.\<close>

fun layers :: "asgi_app \<Rightarrow> layer list" where
  "layers (Handle r) = []"
| "layers (ExceptionHandlerMiddleware a eh d) = ExceptionLayer # layers a"
| "layers (CSRFMiddleware a c) = CSRFLayer # layers a"
| "layers (CompressionMiddleware a c) = CompressionLayer # layers a"
| "layers (AllowedHostsMiddleware a c) = AllowedHostsLayer # layers a"
| "layers (MiddlewareInstance f kw a) = RouteMiddleware f kw # layers a"

text \<open>
  A call-order recording: every wrapper records that it is entered, calls the application it
  wraps, and records that it is left once the wrapped application has produced its response.
\<close>

datatype event = Enter layer | Invoke route | Leave layer

fun call_order :: "asgi_app \<Rightarrow> event list" where
  "call_order (Handle r) = [Invoke r]"
| "call_order (ExceptionHandlerMiddleware a eh d) =
     Enter ExceptionLayer # call_order a @ [Leave ExceptionLayer]"
| "call_order (CSRFMiddleware a c) = Enter CSRFLayer # call_order a @ [Leave CSRFLayer]"
| "call_order (CompressionMiddleware a c) =
     Enter CompressionLayer # call_order a @ [Leave CompressionLayer]"
| "call_order (AllowedHostsMiddleware a c) =
     Enter AllowedHostsLayer # call_order a @ [Leave AllowedHostsLayer]"
| "call_order (MiddlewareInstance f kw a) =
     Enter (RouteMiddleware f kw) # call_order a @ [Leave (RouteMiddleware f kw)]"

text \<open>\<open>precedes x y es\<close>: \<open>y\<close> occurs in \<open>es\<close> after the first occurrence of \<open>x\<close>.\<close>

definition precedes :: "'a \<Rightarrow> 'a \<Rightarrow> 'a list \<Rightarrow> bool" where
  "precedes x y es = (y \<in> set (drop 1 (dropWhile (\<lambda>e. e \<noteq> x) es)))"

text \<open>The layer a middleware item becomes once it is applied.\<close>

fun middleware_layer :: "middleware \<Rightarrow> layer" where
  "middleware_layer (DefineMiddleware handler kw) = RouteMiddleware handler kw"
| "middleware_layer (Factory f) = RouteMiddleware f []"

text \<open>The exception-handling wrappers of a stack, outermost first, each with its arguments.\<close>

fun exception_wrappers :: "asgi_app \<Rightarrow> (asgi_app \<times> exception_handlers \<times> bool) list" where
  "exception_wrappers (Handle r) = []"
| "exception_wrappers (ExceptionHandlerMiddleware a eh d) = (a, eh, d) # exception_wrappers a"
| "exception_wrappers (CSRFMiddleware a c) = exception_wrappers a"
| "exception_wrappers (CompressionMiddleware a c) = exception_wrappers a"
| "exception_wrappers (AllowedHostsMiddleware a c) = exception_wrappers a"
| "exception_wrappers (MiddlewareInstance f kw a) = exception_wrappers a"

section \<open>Trie nodes and the builder state\<close>

text \<open>
  Keys of a node's \<open>children\<close> dictionary: a string, the class \<open>PathParameterSentinel\<close>, or
  (only in \<open>add_mount_route\<close>, which subscripts with the component itself) a parameter
  definition object.
\<close>

datatype node_key = StrKey string | PathParameterSentinel | DefinitionKey path_parameter_definition

datatype asgi_handler_tuple = ASGIHandlerTuple (asgi_app: asgi_app) (handler: route_handler)

text \<open>
  Nodes are mutable objects shared by reference, so a node is held in a store and named by its
  address. Dictionaries are association lists in insertion order.
\<close>

record route_trie_node =
  asgi_handlers :: "(string \<times> asgi_handler_tuple) list"
  child_keys :: "node_key set"
  children :: "(node_key \<times> nat) list"
  is_asgi :: bool
  is_mount :: bool
  is_static :: bool
  is_path_param_node :: bool
  is_path_type :: bool
  path_parameters :: "(string \<times> path_parameter_definition list) list"

record trie_state =
  heap :: "nat \<Rightarrow> route_trie_node"
  next_free :: nat
  mount_routes :: "(string \<times> nat) list"
  plain_routes :: "string set"

text \<open>
  Modelled from the spec: \<open>create_node\<close> (module \<open>starlite.asgi.routing_trie.types\<close>) returns a
  new node with no children, no handlers, no parameter metadata and every flag false.
\<close>

definition empty_node :: route_trie_node where
  "empty_node = \<lparr> asgi_handlers = [], child_keys = {}, children = [], is_asgi = False,
     is_mount = False, is_static = False, is_path_param_node = False, is_path_type = False,
     path_parameters = [] \<rparr>"

definition create_node :: "trie_state \<Rightarrow> nat \<times> trie_state" where
  "create_node s =
     (next_free s, s\<lparr> heap := (heap s)(next_free s := empty_node), next_free := Suc (next_free s) \<rparr>)"

definition update_node :: "nat \<Rightarrow> (route_trie_node \<Rightarrow> route_trie_node) \<Rightarrow> trie_state \<Rightarrow> trie_state" where
  "update_node a f s = s\<lparr> heap := (heap s)(a := f (heap s a)) \<rparr>"

text \<open>
  The idiom \<open>if key not in node.children: node.children[key] = create_node()\<close> followed by the
  read \<open>node.children[key]\<close>: the address read is the one found, or the one just stored.
\<close>

definition child_or_create :: "nat \<Rightarrow> node_key \<Rightarrow> trie_state \<Rightarrow> nat \<times> trie_state" where
  "child_or_create a key s =
     (case map_of (children (heap s a)) key of
        Some c \<Rightarrow> (c, s)
      | None \<Rightarrow>
          (let (c, s1) = create_node s
           in (c, update_node a (\<lambda>n. n\<lparr> children := AList.update key c (children n) \<rparr>) s1)))"

text \<open>A fresh trie: the root node at address 0 and empty indexes.\<close>

definition init_state :: trie_state where
  "init_state = \<lparr> heap = (\<lambda>_. empty_node), next_free = 1, mount_routes = [], plain_routes = {} \<rparr>"

section \<open>\<open>configure_node\<close>\<close>

definition store_handler ::
    "starlite \<Rightarrow> route \<Rightarrow> string \<Rightarrow> route_handler \<Rightarrow> route_trie_node \<Rightarrow> route_trie_node" where
  "store_handler app route key rh n =
     n\<lparr> asgi_handlers :=
          AList.update key (ASGIHandlerTuple (build_route_middleware_stack app route rh) rh)
            (asgi_handlers n),
        path_parameters := AList.update key (route_path_parameters route) (path_parameters n) \<rparr>"

abbreviation store_item ::
    "starlite \<Rightarrow> route \<Rightarrow> string \<times> route_handler \<times> nat \<Rightarrow> route_trie_node \<Rightarrow> route_trie_node" where
  "store_item app route \<equiv> (\<lambda>(method, rh, _) m. store_handler app route method rh m)"

definition configure_fields :: "starlite \<Rightarrow> route \<Rightarrow> route_trie_node \<Rightarrow> route_trie_node" where
  "configure_fields app route n0 =
     (let n = (if path_parameters n0 = [] then n0\<lparr> path_parameters := [] \<rparr> else n0)
      in case route of
           HTTPRoute p cs ps hm \<Rightarrow>
             fold (store_item app route) hm n
         | WebSocketRoute p cs ps rh \<Rightarrow> store_handler app route ''websocket'' rh n
         | ASGIRoute p cs ps rh \<Rightarrow> (store_handler app route ''asgi'' rh n)\<lparr> is_asgi := True \<rparr>)"

definition configure_node :: "starlite \<Rightarrow> route \<Rightarrow> nat \<Rightarrow> trie_state \<Rightarrow> trie_state" where
  "configure_node app route node s = update_node node (configure_fields app route) s"

section \<open>\<open>add_mount_route\<close>\<close>

text \<open>The key a component is used as when the mount walk subscripts \<open>children\<close> with it.\<close>

fun component_key :: "path_component \<Rightarrow> node_key" where
  "component_key (Literal x) = StrKey x"
| "component_key (Parameter d) = DefinitionKey d"

fun mount_walk :: "path_component list \<Rightarrow> nat \<Rightarrow> trie_state \<Rightarrow> nat \<times> trie_state" where
  "mount_walk [] cur s = (cur, s)"
| "mount_walk (c # cs) cur s =
     (let (nxt, s1) = child_or_create cur (component_key c) s in mount_walk cs nxt s1)"

definition add_mount_route :: "nat \<Rightarrow> nat \<Rightarrow> route \<Rightarrow> trie_state \<Rightarrow> nat \<times> trie_state" where
  "add_mount_route current_node root_node route s =
     (let present = (map_of (children (heap s current_node)) (StrKey (path route)) \<noteq> None);
          root = (if present then root_node else current_node);
          (cur, s1) = (if present then (current_node, s)
                       else mount_walk (path_components route) current_node s);
          s2 = update_node cur (\<lambda>n. n\<lparr> is_mount := True \<rparr>) s1;
          s3 = update_node cur (\<lambda>n. n\<lparr> is_static := handler_is_static (route_handler route) \<rparr>) s2;
          s4 = (if path route \<noteq> ''/''
                then update_node root
                       (\<lambda>n. n\<lparr> children := AList.update (StrKey (path route)) cur (children n) \<rparr>)
                       (s3\<lparr> mount_routes := AList.update (path route) cur (mount_routes s3) \<rparr>)
                else s3\<lparr> mount_routes := AList.update (path route) cur (mount_routes s3) \<rparr>)
      in (cur, s4))"

section \<open>\<open>add_route_to_trie\<close>\<close>

text \<open>
  \<open>hasattr(route, "route_handler") and getattr(route.route_handler, "is_mount", False)\<close>: an
  HTTP route has no \<open>route_handler\<close>; a handler without the attribute has it false.
\<close>

fun route_is_mount :: "route \<Rightarrow> bool" where
  "route_is_mount (HTTPRoute p cs ps hm) = False"
| "route_is_mount (WebSocketRoute p cs ps rh) = handler_is_mount rh"
| "route_is_mount (ASGIRoute p cs ps rh) = handler_is_mount rh"

text \<open>One iteration of the loop over the components of a route with path parameters.\<close>

definition add_component :: "path_component \<Rightarrow> nat \<Rightarrow> trie_state \<Rightarrow> nat \<times> trie_state" where
  "add_component component cur s =
     (let s1 = (case component of
                  Parameter d \<Rightarrow> update_node cur (\<lambda>n. n\<lparr> is_path_param_node := True \<rparr>) s
                | Literal x \<Rightarrow> s);
          next_node_key = (case component of
                  Parameter d \<Rightarrow> PathParameterSentinel
                | Literal x \<Rightarrow> StrKey x);
          (nxt, s2) = child_or_create cur next_node_key s1;
          s3 = update_node cur (\<lambda>n. n\<lparr> child_keys := set (map fst (children n)) \<rparr>) s2;
          s4 = (case component of
                  Parameter d \<Rightarrow>
                    if param_type d = TPath
                    then update_node nxt (\<lambda>n. n\<lparr> is_path_type := True \<rparr>) s3 else s3
                | Literal x \<Rightarrow> s3)
      in (nxt, s4))"

fun add_components :: "path_component list \<Rightarrow> nat \<Rightarrow> trie_state \<Rightarrow> nat \<times> trie_state" where
  "add_components [] cur s = (cur, s)"
| "add_components (c # cs) cur s =
     (let (nxt, s1) = add_component c cur s in add_components cs nxt s1)"

definition add_route_to_trie :: "starlite \<Rightarrow> nat \<Rightarrow> route \<Rightarrow> trie_state \<Rightarrow> nat \<times> trie_state" where
  "add_route_to_trie app root_node route s =
     (let (cur, s1) =
            (if route_is_mount route then add_mount_route root_node root_node route s
             else if route_path_parameters route = []
             then child_or_create root_node (StrKey (path route))
                    (s\<lparr> plain_routes := insert (path route) (plain_routes s) \<rparr>)
             else add_components (path_components route) root_node s)
      in (cur, configure_node app route cur s1))"


section \<open>Vocabulary of the properties\<close>

text \<open>The route whose \<open>handle\<close> method a stack ends in.\<close>

fun terminal :: "asgi_app \<Rightarrow> route" where
  "terminal (Handle r) = r"
| "terminal (ExceptionHandlerMiddleware a eh d) = terminal a"
| "terminal (CSRFMiddleware a c) = terminal a"
| "terminal (CompressionMiddleware a c) = terminal a"
| "terminal (AllowedHostsMiddleware a c) = terminal a"
| "terminal (MiddlewareInstance f kw a) = terminal a"

text \<open>The application-wide layers that are configured, outermost first.\<close>

definition config_layers :: "starlite \<Rightarrow> layer list" where
  "config_layers app =
     (case allowed_hosts app of None \<Rightarrow> [] | Some c \<Rightarrow> [AllowedHostsLayer]) @
     (case compression_config app of None \<Rightarrow> [] | Some c \<Rightarrow> [CompressionLayer]) @
     (case csrf_config app of None \<Rightarrow> [] | Some c \<Rightarrow> [CSRFLayer])"

text \<open>The fields of a node other than its handlers, its parameter metadata and \<open>is_asgi\<close>.\<close>

definition same_links :: "route_trie_node \<Rightarrow> route_trie_node \<Rightarrow> bool" where
  "same_links n m \<longleftrightarrow> children m = children n \<and> child_keys m = child_keys n \<and>
     is_mount m = is_mount n \<and> is_static m = is_static n \<and>
     is_path_param_node m = is_path_param_node n \<and> is_path_type m = is_path_type n"

text \<open>The keys under which \<open>configure_node\<close> stores for a route.\<close>

fun declared_keys :: "route \<Rightarrow> string set" where
  "declared_keys (HTTPRoute p cs ps hm) = set (map fst hm)"
| "declared_keys (WebSocketRoute p cs ps rh) = {''websocket''}"
| "declared_keys (ASGIRoute p cs ps rh) = {''asgi''}"

fun is_raw_stream :: "route \<Rightarrow> bool" where
  "is_raw_stream (HTTPRoute p cs ps hm) = False"
| "is_raw_stream (WebSocketRoute p cs ps rh) = False"
| "is_raw_stream (ASGIRoute p cs ps rh) = True"

text \<open>
  Every node reference is a reference to an existing object: in a well-formed state each child
  address stored in an allocated node is itself allocated.
\<close>

definition well_formed :: "trie_state \<Rightarrow> bool" where
  "well_formed s \<longleftrightarrow>
     (\<forall>a<next_free s. \<forall>kc\<in>set (children (heap s a)). snd kc < next_free s)"


text \<open>The two per-node invariants the claims speak about.\<close>

definition param_flag_ok :: "route_trie_node \<Rightarrow> bool" where
  "param_flag_ok n \<longleftrightarrow>
     is_path_param_node n = (PathParameterSentinel \<in> set (map fst (children n)))"


text \<open>
  The key chosen for a component by the loop for routes with path parameters
  (\<open>next_node_key\<close>), and its test
  \<open>isinstance(component, PathParameterDefinition) and component.type is Path\<close>.
\<close>

fun walk_key :: "path_component \<Rightarrow> node_key" where
  "walk_key (Parameter d) = PathParameterSentinel"
| "walk_key (Literal x) = StrKey x"

fun is_path_remainder :: "path_component \<Rightarrow> bool" where
  "is_path_remainder (Parameter d) = (param_type d = TPath)"
| "is_path_remainder (Literal x) = False"

subsection \<open>Sample inputs\<close>

definition handler0 :: route_handler where
  "handler0 = \<lparr> handler_name = ''h'', handler_is_mount = False, handler_is_static = False,
      resolve_middleware = [Factory ''M''], resolve_exception_handlers = [] \<rparr>"

definition mount_handler0 :: route_handler where
  "mount_handler0 = \<lparr> handler_name = ''files'', handler_is_mount = True, handler_is_static = True,
      resolve_middleware = [], resolve_exception_handlers = [] \<rparr>"

definition route0 :: route where
  "route0 = HTTPRoute ''/a'' [Literal ''a''] [] [(''GET'', handler0, 0)]"

definition app0 :: starlite where
  "app0 = \<lparr> debug = False, csrf_config = Some (CSRFConfig ''secret''), compression_config = None,
      allowed_hosts = None \<rparr>"

definition ws_route0 :: route where
  "ws_route0 = WebSocketRoute ''/ws'' [Literal ''ws''] [] handler0"

definition mount_route0 :: route where
  "mount_route0 = ASGIRoute ''/a'' [Literal ''a''] [] mount_handler0"


definition rest_param :: path_parameter_definition where
  "rest_param = PathParameterDefinition ''rest'' TPath"

definition param_route0 :: route where
  "param_route0 = HTTPRoute ''/files/{rest:path}'' [Literal ''files'', Parameter rest_param]
     [rest_param] [(''GET'', handler0, 0)]"




section \<open>The middleware stack\<close>

lemma layers_fold_apply:
  "layers (fold apply_middleware ms a) = rev (map middleware_layer ms) @ layers a"
proof (induction ms arbitrary: a)
  case Nil
  show ?case by simp
next
  case (Cons m ms)
  show ?case by (cases m) (simp_all add: Cons.IH)
qed

lemma exception_wrappers_fold_apply:
  "exception_wrappers (fold apply_middleware ms a) = exception_wrappers a"
proof (induction ms arbitrary: a)
  case Nil
  show ?case by simp
next
  case (Cons m ms)
  show ?case by (cases m) (simp_all add: Cons.IH)
qed

lemma call_order_layers:
  "call_order a = map Enter (layers a) @ Invoke (terminal a) # map Leave (rev (layers a))"
  by (induction a) simp_all

lemma precedes_append:
  assumes "x \<in> set xs" and "y \<in> set ys"
  shows "precedes x y (xs @ ys)"
proof -
  from assms(1) have "dropWhile (\<lambda>e. e \<noteq> x) (xs @ ys) = dropWhile (\<lambda>e. e \<noteq> x) xs @ ys"
    by (intro dropWhile_append1[where x = x]) simp_all
  moreover from assms(1) obtain zs where "dropWhile (\<lambda>e. e \<noteq> x) xs = x # zs"
    by (metis (mono_tags, lifting) dropWhile_eq_Nil_conv hd_dropWhile list.collapse)
  ultimately show ?thesis using assms(2) by (simp add: precedes_def)
qed

lemma layers_build:
  "layers (build_route_middleware_stack app route rh) =
     ExceptionLayer # rev (map middleware_layer (resolve_middleware rh)) @
     config_layers app @ [ExceptionLayer]"
  by (simp add: build_route_middleware_stack_def wrap_in_exception_handler_def Let_def
        layers_fold_apply config_layers_def split: option.splits)

text \<open>
  C1, as the code has it. With CSRF configured, every route-specific middleware \<open>m\<close> of the
  handler is entered before the CSRF layer and left after it: the route-specific middleware are
  applied last, so they sit outside the allowed-hosts, compression and CSRF layers, directly
  inside the outer exception wrapper, the last resolved one outermost.
\<close>

theorem route_middleware_outside_csrf:
  assumes csrf: "csrf_config app = Some c"
    and m: "m \<in> set (resolve_middleware rh)"
  shows "precedes (Enter (middleware_layer m)) (Enter CSRFLayer)
           (call_order (build_route_middleware_stack app route rh))
       \<and> precedes (Leave CSRFLayer) (Leave (middleware_layer m))
           (call_order (build_route_middleware_stack app route rh))
       \<and> layers (build_route_middleware_stack app route rh) =
           ExceptionLayer # rev (map middleware_layer (resolve_middleware rh)) @
           config_layers app @ [ExceptionLayer]"
proof -
  let ?st = "build_route_middleware_stack app route rh"
  let ?us = "rev (map middleware_layer (resolve_middleware rh))"
  obtain pre where cl: "config_layers app = pre @ [CSRFLayer]"
    using csrf by (simp add: config_layers_def)
  have L: "layers ?st = ExceptionLayer # ?us @ pre @ [CSRFLayer, ExceptionLayer]"
    by (simp add: layers_build cl)
  have "call_order ?st =
      (Enter ExceptionLayer # map Enter ?us) @
      (map Enter pre @ [Enter CSRFLayer, Enter ExceptionLayer] @
         Invoke (terminal ?st) # map Leave (rev (layers ?st)))"
    by (simp add: call_order_layers L)
  moreover have "Enter (middleware_layer m) \<in> set (Enter ExceptionLayer # map Enter ?us)"
    using m by simp
  ultimately have inbound:
    "precedes (Enter (middleware_layer m)) (Enter CSRFLayer) (call_order ?st)"
    using precedes_append[of "Enter (middleware_layer m)" "Enter ExceptionLayer # map Enter ?us"
        "Enter CSRFLayer"] by simp
  have "call_order ?st =
      (map Enter (layers ?st) @ [Invoke (terminal ?st), Leave ExceptionLayer, Leave CSRFLayer]) @
      (map Leave (rev pre) @ map Leave (map middleware_layer (resolve_middleware rh)) @
         [Leave ExceptionLayer])"
    by (simp add: call_order_layers L rev_map)
  moreover have "Leave (middleware_layer m) \<in>
      set (map Leave (rev pre) @ map Leave (map middleware_layer (resolve_middleware rh)) @
         [Leave ExceptionLayer])"
    using m by simp
  ultimately have outbound:
    "precedes (Leave CSRFLayer) (Leave (middleware_layer m)) (call_order ?st)"
    using precedes_append[of "Leave CSRFLayer"
        "map Enter (layers ?st) @ [Invoke (terminal ?st), Leave ExceptionLayer, Leave CSRFLayer]"
        "Leave (middleware_layer m)"] by simp
  show ?thesis using inbound outbound layers_build by blast
qed

theorem route_middleware_outside_csrf_witness:
  "csrf_config app0 = Some (CSRFConfig ''secret'')
   \<and> Factory ''M'' \<in> set (resolve_middleware handler0)
   \<and> precedes (Enter (RouteMiddleware ''M'' [])) (Enter CSRFLayer)
       (call_order (build_route_middleware_stack app0 route0 handler0))
   \<and> precedes (Leave CSRFLayer) (Leave (RouteMiddleware ''M'' []))
       (call_order (build_route_middleware_stack app0 route0 handler0))"
  using route_middleware_outside_csrf[of app0 "CSRFConfig ''secret''" "Factory ''M''" handler0 route0]
  by (simp add: app0_def handler0_def)

text \<open>
  C1, as the spec states it, fails: for one middleware \<open>M\<close> and CSRF enabled the recorded order
  enters \<open>M\<close> first, then CSRF, and leaves CSRF before \<open>M\<close>.
\<close>

theorem csrf_outside_route_middleware_counterexample:
  "\<not> precedes (Enter CSRFLayer) (Enter (RouteMiddleware ''M'' []))
       (call_order (build_route_middleware_stack app0 route0 handler0))
   \<and> \<not> precedes (Leave (RouteMiddleware ''M'' [])) (Leave CSRFLayer)
       (call_order (build_route_middleware_stack app0 route0 handler0))
   \<and> layers (build_route_middleware_stack app0 route0 handler0) =
       [ExceptionLayer, RouteMiddleware ''M'' [], CSRFLayer, ExceptionLayer]"
  by (simp add: build_route_middleware_stack_def wrap_in_exception_handler_def app0_def
        handler0_def precedes_def)

text \<open>
  C2. The stack has exactly two exception-handling wrappers: the outermost layer, wrapping the
  whole composed stack, and the innermost, wrapping \<open>route.handle\<close> directly; both are built
  from the handler's resolved exception handlers and the application's debug flag.
\<close>

theorem exception_wrapper_applied_twice:
  "\<exists>inner. build_route_middleware_stack app route rh =
       ExceptionHandlerMiddleware inner (resolve_exception_handlers rh) (debug app)
     \<and> exception_wrappers (build_route_middleware_stack app route rh) =
       [(inner, resolve_exception_handlers rh, debug app),
        (Handle route, resolve_exception_handlers rh, debug app)]"
  by (simp add: build_route_middleware_stack_def wrap_in_exception_handler_def Let_def
        exception_wrappers_fold_apply split: option.splits)

section \<open>Store and node bookkeeping\<close>

lemma heap_update_node [simp]:
  "heap (update_node a f s) b = (if b = a then f (heap s a) else heap s b)"
  by (simp add: update_node_def)

lemma next_free_update_node [simp]: "next_free (update_node a f s) = next_free s"
  by (simp add: update_node_def)

lemma mount_routes_update_node [simp]: "mount_routes (update_node a f s) = mount_routes s"
  by (simp add: update_node_def)

lemma plain_routes_update_node [simp]: "plain_routes (update_node a f s) = plain_routes s"
  by (simp add: update_node_def)

lemma child_or_create_present:
  "map_of (children (heap s a)) key = Some c \<Longrightarrow> child_or_create a key s = (c, s)"
  by (simp add: child_or_create_def)

lemma child_or_create_absent:
  "map_of (children (heap s a)) key = None \<Longrightarrow>
   child_or_create a key s =
     (next_free s,
      update_node a (\<lambda>n. n\<lparr> children := AList.update key (next_free s) (children n) \<rparr>)
        (s\<lparr> heap := (heap s)(next_free s := empty_node), next_free := Suc (next_free s) \<rparr>))"
  by (simp add: child_or_create_def create_node_def)

lemma child_or_create_link:
  "child_or_create a key s = (c, t) \<Longrightarrow> map_of (children (heap t a)) key = Some c"
  by (cases "map_of (children (heap s a)) key")
     (auto simp: child_or_create_absent child_or_create_present update_conv')

section \<open>\<open>configure_node\<close>: what is stored and what is left alone\<close>

lemma store_handler_frame [simp]:
  "children (store_handler app route key rh n) = children n"
  "child_keys (store_handler app route key rh n) = child_keys n"
  "is_asgi (store_handler app route key rh n) = is_asgi n"
  "is_mount (store_handler app route key rh n) = is_mount n"
  "is_static (store_handler app route key rh n) = is_static n"
  "is_path_param_node (store_handler app route key rh n) = is_path_param_node n"
  "is_path_type (store_handler app route key rh n) = is_path_type n"
  by (simp_all add: store_handler_def)

lemma store_handler_lookup:
  "map_of (asgi_handlers (store_handler app route key rh n)) k =
     (if k = key then Some (ASGIHandlerTuple (build_route_middleware_stack app route rh) rh)
      else map_of (asgi_handlers n) k)"
  "map_of (path_parameters (store_handler app route key rh n)) k =
     (if k = key then Some (route_path_parameters route) else map_of (path_parameters n) k)"
  by (simp_all add: store_handler_def update_conv')

lemma store_handler_keys:
  "fst ` set (asgi_handlers (store_handler app route key rh n)) =
     insert key (fst ` set (asgi_handlers n))"
  "fst ` set (path_parameters (store_handler app route key rh n)) =
     insert key (fst ` set (path_parameters n))"
  by (simp_all add: store_handler_def dom_update)

lemma fold_store_frame:
  "same_links n (fold (store_item app route) hm n)
   \<and> is_asgi (fold (store_item app route) hm n) = is_asgi n"
proof (induction hm arbitrary: n)
  case Nil
  show ?case by (simp add: same_links_def)
next
  case (Cons x hm)
  obtain k rh kw where x: "x = (k, rh, kw)" by (cases x) auto
  show ?case using Cons.IH[of "store_handler app route k rh n"]
    by (simp add: x same_links_def)
qed

lemma fold_store_other:
  "k \<notin> set (map fst hm) \<Longrightarrow>
   map_of (asgi_handlers (fold (store_item app route) hm n)) k = map_of (asgi_handlers n) k \<and>
   map_of (path_parameters (fold (store_item app route) hm n)) k = map_of (path_parameters n) k"
proof (induction hm arbitrary: n)
  case Nil
  show ?case by simp
next
  case (Cons x hm)
  obtain key rh kw where x: "x = (key, rh, kw)" by (cases x) auto
  from Cons.prems have "k \<noteq> key" and "k \<notin> set (map fst hm)" by (auto simp: x)
  then show ?case using Cons.IH[of "store_handler app route key rh n"]
    by (simp add: x store_handler_lookup)
qed

lemma fold_store_keys:
  "fst ` set (asgi_handlers (fold (store_item app route) hm n)) =
     fst ` set (asgi_handlers n) \<union> fst ` set hm \<and>
   fst ` set (path_parameters (fold (store_item app route) hm n)) =
     fst ` set (path_parameters n) \<union> fst ` set hm"
proof (induction hm arbitrary: n)
  case Nil
  show ?case by simp
next
  case (Cons x hm)
  obtain key rh kw where x: "x = (key, rh, kw)" by (cases x) auto
  show ?case using Cons.IH[of "store_handler app route key rh n"]
    by (auto simp: x store_handler_keys)
qed

lemma fold_store_declared:
  "distinct (map fst hm) \<Longrightarrow> (k, rh, kw) \<in> set hm \<Longrightarrow>
   map_of (asgi_handlers (fold (store_item app route) hm n)) k =
     Some (ASGIHandlerTuple (build_route_middleware_stack app route rh) rh) \<and>
   map_of (path_parameters (fold (store_item app route) hm n)) k =
     Some (route_path_parameters route)"
proof (induction hm arbitrary: n)
  case Nil
  then show ?case by simp
next
  case (Cons x hm)
  obtain key rh' kw' where x: "x = (key, rh', kw')" by (cases x) auto
  show ?case
  proof (cases "(k, rh, kw) \<in> set hm")
    case True
    with Cons.prems Cons.IH[of "store_handler app route key rh' n"] show ?thesis
      by (simp add: x)
  next
    case False
    with Cons.prems have eq: "key = k" "rh' = rh" and notin: "k \<notin> set (map fst hm)"
      by (auto simp: x)
    show ?thesis
      using fold_store_other[OF notin, of app route "store_handler app route key rh' n"]
      by (simp add: x eq store_handler_lookup)
  qed
qed

lemma reset_path_parameters:
  "(if path_parameters n = [] then n\<lparr> path_parameters := [] \<rparr> else n) = n"
  by simp

lemma configure_fields_eq:
  "configure_fields app route n =
     (case route of
        HTTPRoute p cs ps hm \<Rightarrow> fold (store_item app route) hm n
      | WebSocketRoute p cs ps rh \<Rightarrow> store_handler app route ''websocket'' rh n
      | ASGIRoute p cs ps rh \<Rightarrow> (store_handler app route ''asgi'' rh n)\<lparr> is_asgi := True \<rparr>)"
  unfolding configure_fields_def Let_def reset_path_parameters ..

lemma configure_fields_links: "same_links n (configure_fields app route n)"
proof (cases route)
  case (HTTPRoute p cs ps hm)
  then show ?thesis using fold_store_frame[of n app route hm]
    by (simp add: configure_fields_eq)
next
  case (WebSocketRoute p cs ps rh)
  then show ?thesis by (simp add: configure_fields_eq same_links_def)
next
  case (ASGIRoute p cs ps rh)
  then show ?thesis by (simp add: configure_fields_eq same_links_def)
qed

lemma configure_fields_children [simp]: "children (configure_fields app route n) = children n"
  using configure_fields_links[of n app route] by (simp add: same_links_def)

text \<open>
  C8. For an HTTP route, every method of the handler map (a dictionary: its keys are distinct)
  gets the pair of the stack built for that method's handler and the handler itself, and the
  route's parameter list; a WebSocket route stores the same under \<open>websocket\<close>; a raw-stream
  route stores it under \<open>asgi\<close> and sets \<open>is_asgi\<close>.
\<close>

theorem configure_node_stores:
  "(distinct (map fst hm) \<and> (method, rh, kw) \<in> set hm \<longrightarrow>
      map_of (asgi_handlers (heap (configure_node app (HTTPRoute p cs ps hm) node s) node)) method =
        Some (ASGIHandlerTuple (build_route_middleware_stack app (HTTPRoute p cs ps hm) rh) rh) \<and>
      map_of (path_parameters (heap (configure_node app (HTTPRoute p cs ps hm) node s) node)) method =
        Some ps)
   \<and> map_of (asgi_handlers (heap (configure_node app (WebSocketRoute p cs ps rh) node s) node))
        ''websocket'' =
        Some (ASGIHandlerTuple (build_route_middleware_stack app (WebSocketRoute p cs ps rh) rh) rh)
   \<and> map_of (path_parameters (heap (configure_node app (WebSocketRoute p cs ps rh) node s) node))
        ''websocket'' = Some ps
   \<and> map_of (asgi_handlers (heap (configure_node app (ASGIRoute p cs ps rh) node s) node))
        ''asgi'' =
        Some (ASGIHandlerTuple (build_route_middleware_stack app (ASGIRoute p cs ps rh) rh) rh)
   \<and> map_of (path_parameters (heap (configure_node app (ASGIRoute p cs ps rh) node s) node))
        ''asgi'' = Some ps
   \<and> is_asgi (heap (configure_node app (ASGIRoute p cs ps rh) node s) node)"
proof -
  have "map_of (asgi_handlers (heap (configure_node app (HTTPRoute p cs ps hm) node s) node)) method =
        Some (ASGIHandlerTuple (build_route_middleware_stack app (HTTPRoute p cs ps hm) rh) rh) \<and>
      map_of (path_parameters (heap (configure_node app (HTTPRoute p cs ps hm) node s) node)) method =
        Some ps"
    if d: "distinct (map fst hm)" and m: "(method, rh, kw) \<in> set hm"
    using fold_store_declared[OF d m, of app "HTTPRoute p cs ps hm" "heap s node"]
    by (simp add: configure_node_def configure_fields_eq)
  then show ?thesis
    by (simp add: configure_node_def configure_fields_eq store_handler_lookup)
qed

theorem configure_node_stores_witness:
  "distinct (map fst [(''GET'', handler0, 0::nat)])
   \<and> (''GET'', handler0, 0) \<in> set [(''GET'', handler0, 0::nat)]
   \<and> map_of (asgi_handlers (heap (configure_node app0 route0 0 init_state) 0)) ''GET'' =
       Some (ASGIHandlerTuple (build_route_middleware_stack app0 route0 handler0) handler0)
   \<and> map_of (path_parameters (heap (configure_node app0 route0 0 init_state) 0)) ''GET'' = Some []"
  using configure_node_stores[of "[(''GET'', handler0, 0)]" "''GET''" handler0 0 app0 "''/a''"
      "[Literal ''a'']" "[]" 0 init_state]
  by (simp add: route0_def)

text \<open>
  C10. \<open>configure_node\<close> changes the \<open>asgi_handlers\<close> and \<open>path_parameters\<close> entries of the
  route's own keys only: entries under other keys keep their values and the key sets grow by
  exactly the declared keys (so a non-empty \<open>path_parameters\<close> is never reset). The children,
  \<open>child_keys\<close> and the flags other than \<open>is_asgi\<close> are untouched, \<open>is_asgi\<close> changes only for a
  raw-stream route, and no other node or index changes.
\<close>

theorem configure_node_frame:
  "(\<forall>k. k \<notin> declared_keys route \<longrightarrow>
       map_of (asgi_handlers (heap (configure_node app route node s) node)) k =
         map_of (asgi_handlers (heap s node)) k \<and>
       map_of (path_parameters (heap (configure_node app route node s) node)) k =
         map_of (path_parameters (heap s node)) k)
   \<and> set (map fst (asgi_handlers (heap (configure_node app route node s) node))) =
       set (map fst (asgi_handlers (heap s node))) \<union> declared_keys route
   \<and> set (map fst (path_parameters (heap (configure_node app route node s) node))) =
       set (map fst (path_parameters (heap s node))) \<union> declared_keys route
   \<and> same_links (heap s node) (heap (configure_node app route node s) node)
   \<and> is_asgi (heap (configure_node app route node s) node) =
       (is_raw_stream route \<or> is_asgi (heap s node))
   \<and> (\<forall>a. a \<noteq> node \<longrightarrow> heap (configure_node app route node s) a = heap s a)
   \<and> next_free (configure_node app route node s) = next_free s
   \<and> mount_routes (configure_node app route node s) = mount_routes s
   \<and> plain_routes (configure_node app route node s) = plain_routes s"
proof (cases route)
  case (HTTPRoute p cs ps hm)
  show ?thesis
    using fold_store_other[of _ hm app route "heap s node"]
      fold_store_keys[of app route hm "heap s node"]
      fold_store_frame[of "heap s node" app route hm]
    by (simp add: HTTPRoute configure_node_def configure_fields_eq)
next
  case (WebSocketRoute p cs ps rh)
  show ?thesis
    by (simp add: WebSocketRoute configure_node_def configure_fields_eq store_handler_lookup
          store_handler_keys same_links_def)
next
  case (ASGIRoute p cs ps rh)
  show ?thesis
    by (simp add: ASGIRoute configure_node_def configure_fields_eq store_handler_lookup
          store_handler_keys same_links_def)
qed

theorem configure_node_frame_witness:
  "''GET'' \<notin> declared_keys ws_route0
   \<and> map_of (asgi_handlers
        (heap (configure_node app0 ws_route0 0 (configure_node app0 route0 0 init_state)) 0)) ''GET'' =
       Some (ASGIHandlerTuple (build_route_middleware_stack app0 route0 handler0) handler0)
   \<and> (1::nat) \<noteq> 0
   \<and> heap (configure_node app0 ws_route0 0 (configure_node app0 route0 0 init_state)) 1 = empty_node"
proof -
  let ?s = "configure_node app0 route0 0 init_state"
  have k: "''GET'' \<notin> declared_keys ws_route0" by (simp add: ws_route0_def)
  from configure_node_frame[of ws_route0 app0 0 ?s] k
  have "map_of (asgi_handlers (heap (configure_node app0 ws_route0 0 ?s) 0)) ''GET'' =
          map_of (asgi_handlers (heap ?s 0)) ''GET''"
    and "heap (configure_node app0 ws_route0 0 ?s) 1 = heap ?s 1"
    by simp_all
  moreover have "map_of (asgi_handlers (heap ?s 0)) ''GET'' =
      Some (ASGIHandlerTuple (build_route_middleware_stack app0 route0 handler0) handler0)"
    by (simp add: configure_node_def configure_fields_eq route0_def store_handler_lookup)
  moreover have "heap ?s 1 = empty_node"
    by (simp add: configure_node_def init_state_def)
  ultimately show ?thesis using k by simp
qed

section \<open>Parameter-free routes\<close>

text \<open>
  C3. For a non-mount route without path parameters on an allocated root, \<open>add_route_to_trie\<close>
  adds the path to \<open>plain_routes\<close> and returns the child of the root keyed by the whole path
  string. If the key was present, that child is reused and no node is created; otherwise
  exactly one fresh node is created. The returned node is the one \<open>configure_node\<close> ran on,
  and no node besides the root and the returned one changes.
\<close>

theorem plain_route_child_of_root:
  assumes nm: "\<not> route_is_mount route"
    and np: "route_path_parameters route = []"
    and root: "root_node < next_free s"
  shows "plain_routes (snd (add_route_to_trie app root_node route s)) =
           insert (path route) (plain_routes s)
       \<and> map_of (children (heap (snd (add_route_to_trie app root_node route s)) root_node))
           (StrKey (path route)) = Some (fst (add_route_to_trie app root_node route s))
       \<and> (case map_of (children (heap s root_node)) (StrKey (path route)) of
             Some c \<Rightarrow>
               fst (add_route_to_trie app root_node route s) = c \<and>
               next_free (snd (add_route_to_trie app root_node route s)) = next_free s \<and>
               heap (snd (add_route_to_trie app root_node route s)) c =
                 configure_fields app route (heap s c)
           | None \<Rightarrow>
               fst (add_route_to_trie app root_node route s) = next_free s \<and>
               next_free (snd (add_route_to_trie app root_node route s)) = Suc (next_free s) \<and>
               heap (snd (add_route_to_trie app root_node route s)) (next_free s) =
                 configure_fields app route empty_node)
       \<and> (\<forall>a. a \<noteq> root_node \<and> a \<noteq> fst (add_route_to_trie app root_node route s) \<longrightarrow>
             heap (snd (add_route_to_trie app root_node route s)) a = heap s a)
       \<and> mount_routes (snd (add_route_to_trie app root_node route s)) = mount_routes s"
proof (cases "map_of (children (heap s root_node)) (StrKey (path route))")
  case None
  let ?s0 = "s\<lparr> plain_routes := insert (path route) (plain_routes s) \<rparr>"
  have "map_of (children (heap ?s0 root_node)) (StrKey (path route)) = None"
    using None by simp
  from child_or_create_absent[OF this] nm np root None show ?thesis
    by (simp add: add_route_to_trie_def configure_node_def update_conv')
next
  case (Some c)
  let ?s0 = "s\<lparr> plain_routes := insert (path route) (plain_routes s) \<rparr>"
  have "map_of (children (heap ?s0 root_node)) (StrKey (path route)) = Some c"
    using Some by simp
  from child_or_create_present[OF this] nm np Some show ?thesis
    by (auto simp: add_route_to_trie_def configure_node_def)
qed

theorem plain_route_child_of_root_witness:
  "\<not> route_is_mount route0 \<and> route_path_parameters route0 = [] \<and> 0 < next_free init_state
   \<and> plain_routes (snd (add_route_to_trie app0 0 route0 init_state)) = {''/a''}
   \<and> fst (add_route_to_trie app0 0 route0 init_state) = 1
   \<and> map_of (children (heap (snd (add_route_to_trie app0 0 route0 init_state)) 0))
       (StrKey ''/a'') = Some 1
   \<and> next_free (snd (add_route_to_trie app0 0 route0 init_state)) = 2"
proof -
  have h: "\<not> route_is_mount route0" "route_path_parameters route0 = []" "0 < next_free init_state"
    by (simp_all add: route0_def init_state_def)
  have p: "path route0 = ''/a''" by (simp add: route0_def)
  have n: "map_of (children (heap init_state 0)) (StrKey ''/a'') = None"
    "next_free init_state = 1" "plain_routes init_state = {}"
    by (simp_all add: init_state_def empty_node_def)
  from plain_route_child_of_root[OF h, of app0] show ?thesis
    using h by (simp add: p n)
qed

section \<open>Mount routes\<close>

lemma add_mount_route_present:
  assumes "map_of (children (heap s cur)) (StrKey (path route)) = Some c"
  shows "add_mount_route cur root route s =
     (cur,
      let s3 = update_node cur (\<lambda>n. n\<lparr> is_static := handler_is_static (route_handler route) \<rparr>)
                 (update_node cur (\<lambda>n. n\<lparr> is_mount := True \<rparr>) s);
          s3m = s3\<lparr> mount_routes := AList.update (path route) cur (mount_routes s3) \<rparr>
      in if path route \<noteq> ''/''
         then update_node root
                (\<lambda>n. n\<lparr> children := AList.update (StrKey (path route)) cur (children n) \<rparr>) s3m
         else s3m)"
  using assms unfolding add_mount_route_def Let_def by simp


text \<open>
  C9. If the mount path is already a child key of the root, \<open>add_mount_route\<close> (called, as
  \<open>add_route_to_trie\<close> does, with the root as both nodes) creates nothing and returns the root:
  the root gets \<open>is_mount\<close> and the handler's \<open>is_static\<close>, \<open>mount_routes\<close> maps the path to the
  root, and for a path other than \<open>/\<close> the root's child under the path becomes the root itself.
\<close>

theorem mount_on_registered_path_marks_root:
  assumes present: "map_of (children (heap s root_node)) (StrKey (path route)) \<noteq> None"
  shows "fst (add_mount_route root_node root_node route s) = root_node
       \<and> next_free (snd (add_mount_route root_node root_node route s)) = next_free s
       \<and> is_mount (heap (snd (add_mount_route root_node root_node route s)) root_node)
       \<and> is_static (heap (snd (add_mount_route root_node root_node route s)) root_node) =
           handler_is_static (route_handler route)
       \<and> map_of (mount_routes (snd (add_mount_route root_node root_node route s))) (path route) =
           Some root_node
       \<and> (path route \<noteq> ''/'' \<longrightarrow>
             map_of (children (heap (snd (add_mount_route root_node root_node route s)) root_node))
               (StrKey (path route)) = Some root_node)
       \<and> (path route = ''/'' \<longrightarrow>
             children (heap (snd (add_mount_route root_node root_node route s)) root_node) =
               children (heap s root_node))
       \<and> (\<forall>a. a \<noteq> root_node \<longrightarrow>
             heap (snd (add_mount_route root_node root_node route s)) a = heap s a)
       \<and> (route_is_mount route \<longrightarrow> fst (add_route_to_trie app root_node route s) = root_node)"
proof -
  from present obtain c where
    c: "map_of (children (heap s root_node)) (StrKey (path route)) = Some c"
    by auto
  show ?thesis
    by (simp add: add_mount_route_present[OF c] add_route_to_trie_def Let_def update_conv')
qed

lemma sample_plain_child:
  "map_of (children (heap (snd (add_route_to_trie app0 0 route0 init_state)) 0)) (StrKey ''/a'') =
     Some 1"
proof -
  have "map_of (children (heap (init_state\<lparr> plain_routes := insert ''/a'' (plain_routes init_state) \<rparr>) 0))
          (StrKey ''/a'') = None"
    by (simp add: init_state_def empty_node_def)
  from child_or_create_absent[OF this] show ?thesis
    by (simp add: add_route_to_trie_def route0_def configure_node_def update_conv' init_state_def)
qed

theorem mount_on_registered_path_marks_root_witness:
  "map_of (children (heap (snd (add_route_to_trie app0 0 route0 init_state)) 0))
       (StrKey (path mount_route0)) = Some 1
   \<and> fst (add_mount_route 0 0 mount_route0 (snd (add_route_to_trie app0 0 route0 init_state))) = 0
   \<and> map_of (children (heap (snd (add_mount_route 0 0 mount_route0
         (snd (add_route_to_trie app0 0 route0 init_state)))) 0)) (StrKey ''/a'') = Some 0
   \<and> map_of (mount_routes (snd (add_mount_route 0 0 mount_route0
         (snd (add_route_to_trie app0 0 route0 init_state))))) ''/a'' = Some 0"
proof -
  let ?s = "snd (add_route_to_trie app0 0 route0 init_state)"
  have p: "path mount_route0 = ''/a''" by (simp add: mount_route0_def)
  have c: "map_of (children (heap ?s 0)) (StrKey (path mount_route0)) = Some 1"
    using sample_plain_child by (simp add: p)
  then have "map_of (children (heap ?s 0)) (StrKey (path mount_route0)) \<noteq> None" by simp
  from mount_on_registered_path_marks_root[OF this, of app0] c show ?thesis
    by (simp add: p)
qed

section \<open>Walks, well-formedness and the node invariants\<close>

lemma set_update_subset: "kc \<in> set (AList.update k v al) \<Longrightarrow> kc = (k, v) \<or> kc \<in> set al"
  by (induction al) (auto split: if_splits)

lemma well_formed_update_same_children:
  assumes "well_formed s" and "children (f (heap s a)) = children (heap s a)"
  shows "well_formed (update_node a f s)"
  using assms by (simp add: well_formed_def)

lemma well_formed_link:
  assumes "well_formed s" and "c < next_free s"
  shows "well_formed (update_node a (\<lambda>n. n\<lparr> children := AList.update k c (children n) \<rparr>) s)"
  using assms by (auto simp: well_formed_def dest!: set_update_subset)

lemma well_formed_child:
  "well_formed s \<Longrightarrow> a < next_free s \<Longrightarrow> map_of (children (heap s a)) k = Some c \<Longrightarrow>
   c < next_free s"
  by (fastforce simp: well_formed_def dest: map_of_SomeD)

lemma child_or_create_well_formed:
  assumes wf: "well_formed s" and a: "a < next_free s" and eq: "child_or_create a key s = (c, t)"
  shows "well_formed t \<and> c < next_free t \<and> next_free s \<le> next_free t"
proof (cases "map_of (children (heap s a)) key")
  case None
  from eq child_or_create_absent[OF None] have
    t: "t = update_node a (\<lambda>n. n\<lparr> children := AList.update key (next_free s) (children n) \<rparr>)
        (s\<lparr> heap := (heap s)(next_free s := empty_node), next_free := Suc (next_free s) \<rparr>)"
    and c: "c = next_free s" by auto
  have "well_formed (s\<lparr> heap := (heap s)(next_free s := empty_node), next_free := Suc (next_free s) \<rparr>)"
    using wf by (auto simp: well_formed_def empty_node_def less_Suc_eq)
  from well_formed_link[OF this, of "next_free s" a key] show ?thesis
    by (simp add: t c)
next
  case (Some c')
  with eq child_or_create_present[OF Some] well_formed_child[OF wf a Some] wf show ?thesis
    by simp
qed










lemma add_component_eq:
  "add_component c cur s =
     (let s1 = (case c of Parameter d \<Rightarrow> update_node cur (\<lambda>n. n\<lparr> is_path_param_node := True \<rparr>) s
                | Literal x \<Rightarrow> s);
          r = child_or_create cur (walk_key c) s1;
          s3 = update_node cur (\<lambda>n. n\<lparr> child_keys := set (map fst (children n)) \<rparr>) (snd r)
      in (fst r, if is_path_remainder c
                 then update_node (fst r) (\<lambda>n. n\<lparr> is_path_type := True \<rparr>) s3 else s3))"
  by (cases c) (simp_all add: add_component_def Let_def split_beta)

lemma add_component_present:
  assumes "map_of (children (heap s cur)) (walk_key c) = Some n"
  shows "add_component c cur s =
     (n, let s1 = (case c of Parameter d \<Rightarrow> update_node cur (\<lambda>n. n\<lparr> is_path_param_node := True \<rparr>) s
                   | Literal x \<Rightarrow> s);
             s3 = update_node cur (\<lambda>n. n\<lparr> child_keys := set (map fst (children n)) \<rparr>) s1
         in if is_path_remainder c
            then update_node n (\<lambda>n. n\<lparr> is_path_type := True \<rparr>) s3 else s3)"
proof -
  let ?s1 = "case c of Parameter d \<Rightarrow> update_node cur (\<lambda>n. n\<lparr> is_path_param_node := True \<rparr>) s
             | Literal x \<Rightarrow> s"
  have "map_of (children (heap ?s1 cur)) (walk_key c) = Some n"
    using assms by (cases c) simp_all
  from child_or_create_present[OF this] show ?thesis
    by (simp add: add_component_eq Let_def)
qed

lemma add_component_absent:
  assumes "map_of (children (heap s cur)) (walk_key c) = None"
  shows "add_component c cur s =
     (next_free s,
      let s1 = (case c of Parameter d \<Rightarrow> update_node cur (\<lambda>n. n\<lparr> is_path_param_node := True \<rparr>) s
                | Literal x \<Rightarrow> s);
          s2 = update_node cur
                 (\<lambda>n. n\<lparr> children := AList.update (walk_key c) (next_free s) (children n) \<rparr>)
                 (s1\<lparr> heap := (heap s1)(next_free s := empty_node), next_free := Suc (next_free s) \<rparr>);
          s3 = update_node cur (\<lambda>n. n\<lparr> child_keys := set (map fst (children n)) \<rparr>) s2
      in if is_path_remainder c
         then update_node (next_free s) (\<lambda>n. n\<lparr> is_path_type := True \<rparr>) s3 else s3)"
proof -
  let ?s1 = "case c of Parameter d \<Rightarrow> update_node cur (\<lambda>n. n\<lparr> is_path_param_node := True \<rparr>) s
             | Literal x \<Rightarrow> s"
  have "map_of (children (heap ?s1 cur)) (walk_key c) = None"
    using assms by (cases c) simp_all
  moreover have "next_free ?s1 = next_free s" by (cases c) simp_all
  ultimately show ?thesis
    using child_or_create_absent[of ?s1 cur "walk_key c"]
    by (simp add: add_component_eq Let_def)
qed



lemma add_component_well_formed:
  assumes wf: "well_formed s" and cur: "cur < next_free s"
    and eq: "add_component c cur s = (nxt, t)"
  shows "well_formed t \<and> nxt < next_free t \<and> next_free s \<le> next_free t"
proof -
  let ?s1 = "case c of Parameter d \<Rightarrow> update_node cur (\<lambda>n. n\<lparr> is_path_param_node := True \<rparr>) s
             | Literal x \<Rightarrow> s"
  have wf1: "well_formed ?s1" and nf1: "next_free ?s1 = next_free s"
    using wf by (cases c; simp add: well_formed_update_same_children)+
  obtain n s2 where r: "child_or_create cur (walk_key c) ?s1 = (n, s2)"
    by (cases "child_or_create cur (walk_key c) ?s1") auto
  from child_or_create_well_formed[OF wf1 _ r] cur nf1
  have wf2: "well_formed s2" and n: "n < next_free s2" and le: "next_free s \<le> next_free s2"
    by simp_all
  let ?s3 = "update_node cur (\<lambda>n. n\<lparr> child_keys := set (map fst (children n)) \<rparr>) s2"
  have wf3: "well_formed ?s3" using wf2 by (simp add: well_formed_update_same_children)
  have "well_formed (update_node n (\<lambda>n. n\<lparr> is_path_type := True \<rparr>) ?s3)"
    by (rule well_formed_update_same_children[OF wf3]) simp
  with eq r wf3 n le show ?thesis
    by (auto simp: add_component_eq Let_def split: if_splits)
qed

lemma well_formed_indexes [simp]:
  "well_formed (s\<lparr> mount_routes := m \<rparr>) = well_formed s"
  "well_formed (s\<lparr> plain_routes := p \<rparr>) = well_formed s"
  by (simp_all add: well_formed_def)

lemma add_components_append:
  "add_components (xs @ ys) cur s =
     (let (n, t) = add_components xs cur s in add_components ys n t)"
  by (induction xs arbitrary: cur s) (simp_all add: split_beta)

lemma add_components_well_formed:
  assumes "well_formed s" and "cur < next_free s" and "add_components cs cur s = (n, t)"
  shows "well_formed t \<and> n < next_free t \<and> next_free s \<le> next_free t"
  using assms
proof (induction cs arbitrary: cur s)
  case Nil
  then show ?case by simp
next
  case (Cons c cs)
  obtain nxt s1 where step: "add_component c cur s = (nxt, s1)"
    by (cases "add_component c cur s") auto
  with Cons.prems have rest: "add_components cs nxt s1 = (n, t)" by simp
  from add_component_well_formed[OF Cons.prems(1,2) step]
  have "well_formed s1" "nxt < next_free s1" "next_free s \<le> next_free s1" by simp_all
  with Cons.IH[OF _ _ rest] show ?case by fastforce
qed



lemma add_component_keeps_path_type:
  assumes "cur < next_free s" and "b < next_free s" and "is_path_type (heap s b)"
    and "add_component c cur s = (nxt, t)"
  shows "is_path_type (heap t b)"
proof (cases "map_of (children (heap s cur)) (walk_key c)")
  case None
  from assms add_component_absent[OF None] show ?thesis
    by (cases c) (auto simp: Let_def)
next
  case (Some n)
  from assms add_component_present[OF Some] show ?thesis
    by (cases c) (auto simp: Let_def)
qed

lemma add_components_keep_path_type:
  assumes "well_formed s" and "cur < next_free s" and "b < next_free s"
    and "is_path_type (heap s b)" and "add_components cs cur s = (n, t)"
  shows "is_path_type (heap t b)"
  using assms
proof (induction cs arbitrary: cur s)
  case Nil
  then show ?case by simp
next
  case (Cons c cs)
  obtain nxt s1 where step: "add_component c cur s = (nxt, s1)"
    by (cases "add_component c cur s") auto
  with Cons.prems have rest: "add_components cs nxt s1 = (n, t)" by simp
  from add_component_well_formed[OF Cons.prems(1,2) step]
  have wf1: "well_formed s1" and nxt: "nxt < next_free s1" and le: "next_free s \<le> next_free s1"
    by simp_all
  have b1: "b < next_free s1" using Cons.prems(3) le by simp
  have "is_path_type (heap s1 b)"
    by (rule add_component_keeps_path_type[OF Cons.prems(2,3,4) step])
  from Cons.IH[OF wf1 nxt b1 this rest] show ?case .
qed

lemma add_component_sets_path_type:
  assumes "is_path_remainder c" and "add_component c cur s = (nxt, t)"
  shows "is_path_type (heap t nxt)"
  using assms by (auto simp: add_component_eq Let_def)

lemma add_component_never_sets_path_type:
  assumes "\<not> is_path_remainder c" and "is_path_type (heap (snd (add_component c cur s)) a)"
  shows "is_path_type (heap s a)"
proof (cases "map_of (children (heap s cur)) (walk_key c)")
  case None
  from assms add_component_absent[OF None] show ?thesis
    by (cases c) (auto simp: Let_def empty_node_def split: if_splits)
next
  case (Some n)
  from assms add_component_present[OF Some] show ?thesis
    by (cases c) (auto simp: Let_def split: if_splits)
qed

lemma configure_node_links:
  "same_links (heap s a) (heap (configure_node app route node s) a)"
  using configure_fields_links[of "heap s node" app route]
  by (simp add: configure_node_def same_links_def)











lemma init_state_invariant:
  "\<forall>b. param_flag_ok (heap init_state b)" "well_formed init_state" "0 < next_free init_state"
  by (simp_all add: init_state_def empty_node_def param_flag_ok_def well_formed_def)

lemma add_component_sentinel_link:
  "map_of (children (heap (snd (add_component (Parameter d) cur s)) cur)) PathParameterSentinel =
     Some (fst (add_component (Parameter d) cur s))"
proof -
  let ?s1 = "update_node cur (\<lambda>n. n\<lparr> is_path_param_node := True \<rparr>) s"
  obtain n s2 where r: "child_or_create cur PathParameterSentinel ?s1 = (n, s2)"
    by (cases "child_or_create cur PathParameterSentinel ?s1") auto
  from child_or_create_link[OF r] r show ?thesis
    by (auto simp: add_component_eq Let_def)
qed










lemma sample_param_walk:
  "fst (add_components (path_components param_route0) 0 init_state) = 2"
  by (simp add: param_route0_def rest_param_def init_state_def add_component_def
        child_or_create_def create_node_def update_node_def empty_node_def Let_def)



text \<open>
  C7. In a well-formed trie, when a route with path parameters is inserted, the node reached
  through the sentinel edge for a parameter component of the path-remainder type has
  \<open>is_path_type\<close> at the end of the insertion; that node is the sentinel child of the node
  reached before it and the walk continues from it. A component that is not a path-remainder
  parameter never sets \<open>is_path_type\<close>: a node that has the flag after its step had it before.
\<close>

theorem path_type_marked:
  assumes wf: "well_formed s" and root: "root_node < next_free s"
    and nm: "\<not> route_is_mount route" and ps: "route_path_parameters route \<noteq> []"
    and comps: "path_components route = pre @ Parameter d # post"
  shows "(param_type d = TPath \<longrightarrow>
            is_path_type (heap (snd (add_route_to_trie app root_node route s))
              (fst (add_components (pre @ [Parameter d]) root_node s))))
       \<and> map_of (children (heap (snd (add_components (pre @ [Parameter d]) root_node s))
            (fst (add_components pre root_node s)))) PathParameterSentinel =
           Some (fst (add_components (pre @ [Parameter d]) root_node s))
       \<and> fst (add_route_to_trie app root_node route s) =
           fst (add_components post (fst (add_components (pre @ [Parameter d]) root_node s))
                  (snd (add_components (pre @ [Parameter d]) root_node s)))
       \<and> (\<forall>c cur t a. \<not> is_path_remainder c \<longrightarrow>
             is_path_type (heap (snd (add_component c cur t)) a) \<longrightarrow> is_path_type (heap t a))"
proof -
  obtain m t0 where w0: "add_components pre root_node s = (m, t0)"
    by (cases "add_components pre root_node s") auto
  obtain n t1 where st: "add_component (Parameter d) m t0 = (n, t1)"
    by (cases "add_component (Parameter d) m t0") auto
  obtain e t2 where w2: "add_components post n t1 = (e, t2)"
    by (cases "add_components post n t1") auto
  have w1: "add_components (pre @ [Parameter d]) root_node s = (n, t1)"
    by (simp add: add_components_append w0 st)
  have full: "add_components (path_components route) root_node s = (e, t2)"
    using w1 w2 add_components_append[of "pre @ [Parameter d]" post root_node s]
    by (simp add: comps)
  have s': "add_route_to_trie app root_node route s = (e, configure_node app route e t2)"
    using nm ps full by (simp add: add_route_to_trie_def)
  from add_components_well_formed[OF wf root w1]
  have wf1: "well_formed t1" and n: "n < next_free t1" by simp_all
  have mark: "is_path_type (heap (configure_node app route e t2) n)" if "param_type d = TPath"
  proof -
    from that have "is_path_remainder (Parameter d)" by simp
    from add_component_sets_path_type[OF this st] have "is_path_type (heap t1 n)" .
    from add_components_keep_path_type[OF wf1 n n this w2] have "is_path_type (heap t2 n)" .
    with configure_node_links[of t2 n app route e] show ?thesis
      by (simp add: same_links_def)
  qed
  have link: "map_of (children (heap t1 m)) PathParameterSentinel = Some n"
    using add_component_sentinel_link[of d m t0] by (simp add: st)
  have never: "\<forall>c cur t a. \<not> is_path_remainder c \<longrightarrow>
      is_path_type (heap (snd (add_component c cur t)) a) \<longrightarrow> is_path_type (heap t a)"
    using add_component_never_sets_path_type by blast
  show ?thesis using mark link never by (simp add: s' w0 w1 w2)
qed

theorem path_type_marked_witness:
  "well_formed init_state \<and> 0 < next_free init_state \<and> \<not> route_is_mount param_route0
   \<and> route_path_parameters param_route0 \<noteq> []
   \<and> path_components param_route0 = [Literal ''files''] @ Parameter rest_param # []
   \<and> param_type rest_param = TPath
   \<and> fst (add_components ([Literal ''files''] @ [Parameter rest_param]) 0 init_state) = 2
   \<and> is_path_type (heap (snd (add_route_to_trie app0 0 param_route0 init_state)) 2)"
proof -
  have h: "well_formed init_state" "0 < next_free init_state" "\<not> route_is_mount param_route0"
    "route_path_parameters param_route0 \<noteq> []"
    "path_components param_route0 = [Literal ''files''] @ Parameter rest_param # []"
    by (simp_all add: init_state_invariant param_route0_def)
  have t: "param_type rest_param = TPath" by (simp add: rest_param_def)
  have n: "fst (add_components ([Literal ''files''] @ [Parameter rest_param]) 0 init_state) = 2"
    using sample_param_walk by (simp add: param_route0_def)
  from path_type_marked[OF h, of app0] t n h show ?thesis by simp
qed






end
